theory Spec2Isabelle
  imports Complex_Main "HOL-Library.AList" "HOL-Library.Multiset" "HOL-Library.Sublist"
begin

section \<open>saged/utils.py: sample selection and class balancing\<close>

text \<open>
  The functions of \<^verbatim>\<open>src/saged/utils.py\<close> as HOL functions. Python exceptions are values:
  a function that can raise returns \<open>error + 'a\<close>, with \<open>Inl\<close> for the exception.
  Python integers are \<open>int\<close>. The class-balance correction is given twice: with its
  arithmetic carried out exactly, over the rationals (\<open>determine_subset_fraction\<close>), and
  with the 64-bit floating-point arithmetic of the interpreter, every operation rounded
  (\<open>determine_subset_fraction_f64\<close>).
\<close>

subsection \<open>Exceptions\<close>

datatype error =
    KeyError
  | IndexError
  | ZeroDivisionError
  | UnboundLocalError
  | AssertionError
  | OverflowError

text \<open>Sequencing of two computations that may raise: the first exception wins.\<close>

definition bind_err :: "error + 'a \<Rightarrow> ('a \<Rightarrow> error + 'b) \<Rightarrow> error + 'b" where
  "bind_err m f = (case m of Inl e \<Rightarrow> Inl e | Inr x \<Rightarrow> f x)"

subsection \<open>Class-balance correction in exact arithmetic\<close>

text \<open>
  The division \<^verbatim>\<open>a / b\<close> without rounding: the exact quotient, and ZeroDivisionError
  when the divisor is zero.
\<close>

definition truediv :: "rat \<Rightarrow> rat \<Rightarrow> error + rat" where
  "truediv a b = (if b = 0 then Inl ZeroDivisionError else Inr (a / b))"

text \<open>
  \<^verbatim>\<open>
  train_disease_fraction = train_positive / (train_negative + train_positive)
  val_disease_fraction = val_positive / (val_positive + val_negative)
  if train_disease_fraction > val_disease_fraction:
      target = (val_disease_fraction * train_negative) / (1 - val_disease_fraction)
      subset_fraction = target / train_positive
  elif train_disease_fraction < val_disease_fraction:
      target = (train_positive - (val_disease_fraction * train_positive)) / val_disease_fraction
      subset_fraction = target / train_negative
  return subset_fraction
  \<close>
  When neither branch is taken the local \<^verbatim>\<open>subset_fraction\<close> was never assigned and the
  \<^verbatim>\<open>return\<close> raises UnboundLocalError. Here the expressions of the function are
  evaluated exactly: this is the quantity that the floating-point computation of the next
  subsection approximates.
\<close>

definition determine_subset_fraction :: "int \<Rightarrow> int \<Rightarrow> int \<Rightarrow> int \<Rightarrow> error + rat" where
  "determine_subset_fraction train_positive train_negative val_positive val_negative =
     bind_err (truediv (of_int train_positive) (of_int (train_negative + train_positive)))
       (\<lambda>train_disease_fraction.
     bind_err (truediv (of_int val_positive) (of_int (val_positive + val_negative)))
       (\<lambda>val_disease_fraction.
     if train_disease_fraction > val_disease_fraction then
       bind_err (truediv (val_disease_fraction * of_int train_negative)
                         (1 - val_disease_fraction))
         (\<lambda>target. truediv target (of_int train_positive))
     else if train_disease_fraction < val_disease_fraction then
       bind_err (truediv (of_int train_positive - val_disease_fraction * of_int train_positive)
                         val_disease_fraction)
         (\<lambda>target. truediv target (of_int train_negative))
     else Inl UnboundLocalError))"


subsection \<open>Class-balance correction in 64-bit floating point\<close>

text \<open>
  What the interpreter computes: every \<^verbatim>\<open>/\<close>, \<^verbatim>\<open>*\<close> and \<^verbatim>\<open>-\<close> of the function yields an
  IEEE 754 binary64 number, the exact result rounded to the nearest representable value,
  ties to the even significand. A finite double is given by its exact rational value (the
  sign of a zero is not kept: the function only compares zeros and divides by nonzero
  numbers); results beyond the largest double become infinities.

  \<open>binade x\<close> is the exponent \<open>e\<close> with \<open>2^e \<le> x < 2^(e+1)\<close>, kept within the exponents
  of the format (\<open>-1022\<close> for subnormal numbers, \<open>1023\<close> at most); a significand has 53
  bits, so neighbouring doubles of that binade are \<open>2^(e-52)\<close> apart.
\<close>

datatype float64 = Finite rat | PosInf | NegInf | NaN

function exp_up :: "rat \<Rightarrow> int \<Rightarrow> int" where
  "exp_up x e = (if 2 \<le> x \<and> e < 1023 then exp_up (x / 2) (e + 1) else e)"
  by pat_completeness auto
termination
  by (relation "measure (\<lambda>(x, e). nat (1023 - e))") auto

function exp_down :: "rat \<Rightarrow> int \<Rightarrow> int" where
  "exp_down x e = (if x < 1 \<and> - 1022 < e then exp_down (2 * x) (e - 1) else e)"
  by pat_completeness auto
termination
  by (relation "measure (\<lambda>(x, e). nat (e + 1022))") auto

declare exp_up.simps [simp del] exp_down.simps [simp del]

definition binade :: "rat \<Rightarrow> int" where
  "binade x = (if x < 1 then exp_down x 0 else exp_up x 0)"

definition pow2 :: "int \<Rightarrow> rat" where
  "pow2 e = (if 0 \<le> e then 2 ^ nat e else 1 / 2 ^ nat (- e))"

definition round_half_even :: "rat \<Rightarrow> int" where
  "round_half_even q =
     (let n = \<lfloor>q\<rfloor>; r = q - of_int n
      in if r < 1 / 2 then n else if 1 / 2 < r then n + 1 else if even n then n else n + 1)"

definition round_pos :: "rat \<Rightarrow> float64" where
  "round_pos x =
     (let ulp = pow2 (binade x - 52); r = of_int (round_half_even (x / ulp)) * ulp
      in if pow2 1024 \<le> r then PosInf else Finite r)"

definition negate :: "float64 \<Rightarrow> float64" where
  "negate a =
     (case a of Finite r \<Rightarrow> Finite (- r) | PosInf \<Rightarrow> NegInf | NegInf \<Rightarrow> PosInf | NaN \<Rightarrow> NaN)"

definition round_f64 :: "rat \<Rightarrow> float64" where
  "round_f64 x =
     (if x = 0 then Finite 0 else if 0 < x then round_pos x else negate (round_pos (- x)))"

text \<open>
  Converting an \<^verbatim>\<open>int\<close> to a float, and \<^verbatim>\<open>int / int\<close>, round the exact value and raise
  OverflowError when it is too large for a double; the division raises ZeroDivisionError
  first.
\<close>

definition float_of_int :: "int \<Rightarrow> error + float64" where
  "float_of_int n =
     (case round_f64 (of_int n) of Finite r \<Rightarrow> Inr (Finite r) | _ \<Rightarrow> Inl OverflowError)"

definition int_truediv :: "int \<Rightarrow> int \<Rightarrow> error + float64" where
  "int_truediv a b =
     (if b = 0 then Inl ZeroDivisionError
      else case round_f64 (of_int a / of_int b) of
             Finite r \<Rightarrow> Inr (Finite r)
           | _ \<Rightarrow> Inl OverflowError)"

text \<open>Arithmetic on floats does not raise on overflow: it continues with an infinity.\<close>

fun float_mul :: "float64 \<Rightarrow> float64 \<Rightarrow> float64" where
  "float_mul (Finite x) (Finite y) = round_f64 (x * y)"
| "float_mul NaN b = NaN"
| "float_mul a NaN = NaN"
| "float_mul (Finite x) b = (if x = 0 then NaN else if 0 < x then b else negate b)"
| "float_mul a (Finite y) = (if y = 0 then NaN else if 0 < y then a else negate a)"
| "float_mul PosInf b = b"
| "float_mul NegInf b = negate b"

fun float_sub :: "float64 \<Rightarrow> float64 \<Rightarrow> float64" where
  "float_sub (Finite x) (Finite y) = round_f64 (x - y)"
| "float_sub NaN b = NaN"
| "float_sub a NaN = NaN"
| "float_sub (Finite x) b = negate b"
| "float_sub a (Finite y) = a"
| "float_sub PosInf PosInf = NaN"
| "float_sub NegInf NegInf = NaN"
| "float_sub a b = a"

fun float_div :: "float64 \<Rightarrow> float64 \<Rightarrow> float64" where
  "float_div (Finite x) (Finite y) = round_f64 (x / y)"
| "float_div NaN b = NaN"
| "float_div a NaN = NaN"
| "float_div (Finite x) b = Finite 0"
| "float_div a (Finite y) = (if 0 < y then a else negate a)"
| "float_div a b = NaN"

definition float_truediv :: "float64 \<Rightarrow> float64 \<Rightarrow> error + float64" where
  "float_truediv a b = (if b = Finite 0 then Inl ZeroDivisionError else Inr (float_div a b))"

fun float_less :: "float64 \<Rightarrow> float64 \<Rightarrow> bool" where
  "float_less (Finite x) (Finite y) = (x < y)"
| "float_less NaN b = False"
| "float_less a NaN = False"
| "float_less a NegInf = False"
| "float_less PosInf b = False"
| "float_less a b = True"

text \<open>
  The function with the arithmetic of the interpreter. An \<^verbatim>\<open>int\<close> operand of a float
  operation is converted first (\<^verbatim>\<open>train_negative\<close>, \<^verbatim>\<open>train_positive\<close>, and the
  literal \<^verbatim>\<open>1\<close>, which is exact).
\<close>

definition determine_subset_fraction_f64 ::
  "int \<Rightarrow> int \<Rightarrow> int \<Rightarrow> int \<Rightarrow> error + float64" where
  "determine_subset_fraction_f64 train_positive train_negative val_positive val_negative =
     bind_err (int_truediv train_positive (train_negative + train_positive))
       (\<lambda>train_disease_fraction.
     bind_err (int_truediv val_positive (val_positive + val_negative))
       (\<lambda>val_disease_fraction.
     if float_less val_disease_fraction train_disease_fraction then
       bind_err (float_of_int train_negative) (\<lambda>train_negative_f.
       bind_err (float_truediv (float_mul val_disease_fraction train_negative_f)
                               (float_sub (Finite 1) val_disease_fraction)) (\<lambda>target.
       bind_err (float_of_int train_positive) (\<lambda>train_positive_f.
         float_truediv target train_positive_f)))
     else if float_less train_disease_fraction val_disease_fraction then
       bind_err (float_of_int train_positive) (\<lambda>train_positive_f.
       bind_err (float_truediv
                   (float_sub train_positive_f
                      (float_mul val_disease_fraction train_positive_f))
                   val_disease_fraction) (\<lambda>target.
       bind_err (float_of_int train_negative) (\<lambda>train_negative_f.
         float_truediv target train_negative_f)))
     else Inl UnboundLocalError))"

subsection \<open>Dictionaries\<close>

text \<open>
  A Python \<^verbatim>\<open>dict\<close> is an association list in insertion order, the order in which a
  \<^verbatim>\<open>for\<close> loop visits it; its keys are distinct. \<^verbatim>\<open>d[k]\<close> raises KeyError for an
  absent key, \<^verbatim>\<open>k in d\<close> tests the keys, and \<^verbatim>\<open>d[k] = v\<close> replaces the value of a
  present key in place and appends a new key at the end.
\<close>

type_synonym ('k, 'v) dict = "('k \<times> 'v) list"

definition dict_getitem :: "('k, 'v) dict \<Rightarrow> 'k \<Rightarrow> error + 'v" where
  "dict_getitem d k = (case map_of d k of None \<Rightarrow> Inl KeyError | Some v \<Rightarrow> Inr v)"

definition dict_contains :: "('k, 'v) dict \<Rightarrow> 'k \<Rightarrow> bool" where
  "dict_contains d k = (map_of d k \<noteq> None)"

definition dict_setitem :: "('k, 'v) dict \<Rightarrow> 'k \<Rightarrow> 'v \<Rightarrow> ('k, 'v) dict" where
  "dict_setitem d k v = AList.update k v d"

subsection \<open>Label map loaders\<close>

text \<open>
  Both loaders read the pair \<^verbatim>\<open>(label_to_sample, _)\<close> from a pickle file and invert
  \<^verbatim>\<open>label_to_sample\<close>; the model starts from the unpickled dictionary, whose values are
  the sample ids of each label in the order the loop visits them.
  \<^verbatim>\<open>
  for label in label_to_sample:
      for sample in label_to_sample[label]:
          assert sample not in sample_to_label      # parse_label_file only
          sample_to_label[sample] = label
  \<close>
\<close>

fun assign_label_checked ::
  "string \<Rightarrow> string list \<Rightarrow> (string, string) dict \<Rightarrow> error + (string, string) dict" where
  "assign_label_checked label [] sample_to_label = Inr sample_to_label"
| "assign_label_checked label (sample # rest) sample_to_label =
     (if dict_contains sample_to_label sample then Inl AssertionError
      else assign_label_checked label rest (dict_setitem sample_to_label sample label))"

fun parse_label_loop ::
  "(string, string list) dict \<Rightarrow> (string, string) dict \<Rightarrow> error + (string, string) dict" where
  "parse_label_loop [] sample_to_label = Inr sample_to_label"
| "parse_label_loop ((label, sample_ids) # rest) sample_to_label =
     bind_err (assign_label_checked label sample_ids sample_to_label)
       (\<lambda>sample_to_label'. parse_label_loop rest sample_to_label')"

definition parse_label_file :: "(string, string list) dict \<Rightarrow> error + (string, string) dict" where
  "parse_label_file label_to_sample = parse_label_loop label_to_sample []"

fun assign_label ::
  "string \<Rightarrow> string list \<Rightarrow> (string, string) dict \<Rightarrow> (string, string) dict" where
  "assign_label label [] sample_to_label = sample_to_label"
| "assign_label label (sample # rest) sample_to_label =
     assign_label label rest (dict_setitem sample_to_label sample label)"

fun parse_map_loop ::
  "(string, string list) dict \<Rightarrow> (string, string) dict \<Rightarrow> (string, string) dict" where
  "parse_map_loop [] sample_to_label = sample_to_label"
| "parse_map_loop ((label, sample_ids) # rest) sample_to_label =
     parse_map_loop rest (assign_label label sample_ids sample_to_label)"

definition parse_map_file :: "(string, string list) dict \<Rightarrow> (string, string) dict" where
  "parse_map_file label_to_sample = parse_map_loop label_to_sample []"

text \<open>
  The inverted mapping written out: every sample of every label, in loop order, paired
  with its label. It is what the loaders are compared with.
\<close>

definition invert_labels :: "(string, string list) dict \<Rightarrow> (string, string) dict" where
  "invert_labels label_to_sample =
     concat (map (\<lambda>(label, sample_ids). map (\<lambda>sample. (sample, label)) sample_ids)
       label_to_sample)"

subsection \<open>Filtering samples by study\<close>

text \<open>
  \<^verbatim>\<open>[sample for sample in samples if sample_to_study[sample] in studies]\<close>: the
  comprehension looks every sample up, and the first absent one raises KeyError.
\<close>

fun get_samples_in_studies ::
  "string list \<Rightarrow> string set \<Rightarrow> (string, string) dict \<Rightarrow> error + string list" where
  "get_samples_in_studies [] studies sample_to_study = Inr []"
| "get_samples_in_studies (sample # rest) studies sample_to_study =
     bind_err (dict_getitem sample_to_study sample) (\<lambda>study.
     bind_err (get_samples_in_studies rest studies sample_to_study) (\<lambda>subset_samples.
       Inr (if study \<in> studies then sample # subset_samples else subset_samples)))"

subsection \<open>Strings and lists\<close>

text \<open>
  Strings are ASCII text, one \<open>char\<close> per character. \<^verbatim>\<open>sub in s\<close> is the substring
  test, \<^verbatim>\<open>s.split(sep)\<close> cuts at every occurrence of a one-character separator (so the
  result has one field more than there are separators), \<^verbatim>\<open>s.strip()\<close> removes the
  whitespace at both ends (tab, line feed, vertical tab, form feed, carriage return, the
  separators 28 to 31 and the space) and \<^verbatim>\<open>s.lower()\<close> maps \<open>A\<close> to \<open>Z\<close> to \<open>a\<close> to
  \<open>z\<close>. \<^verbatim>\<open>xs[i]\<close> with a constant index \<open>i \<ge> 0\<close> raises IndexError beyond the end.
\<close>

fun str_contains :: "string \<Rightarrow> string \<Rightarrow> bool" where
  "str_contains sub [] = (sub = [])"
| "str_contains sub (c # cs) = (prefix sub (c # cs) \<or> str_contains sub cs)"

fun str_split :: "char \<Rightarrow> string \<Rightarrow> string list" where
  "str_split sep [] = [[]]"
| "str_split sep (c # cs) =
     (if c = sep then [] # str_split sep cs
      else (let fields = str_split sep cs in (c # hd fields) # tl fields))"

definition is_space :: "char \<Rightarrow> bool" where
  "is_space c = ((of_char c :: nat) \<in> {9, 10, 11, 12, 13, 28, 29, 30, 31, 32})"

definition str_strip :: "string \<Rightarrow> string" where
  "str_strip s = rev (dropWhile is_space (rev (dropWhile is_space s)))"

definition lower_char :: "char \<Rightarrow> char" where
  "lower_char c =
     (case map_of (zip ''ABCDEFGHIJKLMNOPQRSTUVWXYZ'' ''abcdefghijklmnopqrstuvwxyz'') c of
        None \<Rightarrow> c
      | Some l \<Rightarrow> l)"

definition str_lower :: "string \<Rightarrow> string" where
  "str_lower s = map lower_char s"

definition list_getitem :: "'a list \<Rightarrow> nat \<Rightarrow> error + 'a" where
  "list_getitem xs i = (if i < length xs then Inr (xs ! i) else Inl IndexError)"

subsection \<open>Tissue extraction\<close>

text \<open>
  The metadata of refine.bio, as far as the functions read it: a sample's record may have
  the key \<^verbatim>\<open>refinebio_annotations\<close>, a list of annotations; an annotation may have the
  key \<^verbatim>\<open>characteristics_ch1\<close>, a list of strings. An absent key is \<open>None\<close>, and
  subscripting with an absent key raises KeyError.
\<close>

record annotation =
  characteristics_ch1 :: "string list option"

record sample_record =
  refinebio_annotations :: "annotation list option"

definition get_key :: "'a option \<Rightarrow> error + 'a" where
  "get_key field = (case field of None \<Rightarrow> Inl KeyError | Some v \<Rightarrow> Inr v)"

text \<open>
  \<^verbatim>\<open>
  for characteristic in ch1:
      if 'tissue:' in characteristic:
          tissue = characteristic.split(':')[1]
          tissue = tissue.strip().lower()
          return tissue
  \<close>
\<close>

fun find_tissue :: "string list \<Rightarrow> error + string option" where
  "find_tissue [] = Inr None"
| "find_tissue (characteristic # rest) =
     (if str_contains ''tissue:'' characteristic then
        bind_err (list_getitem (str_split CHR '':'' characteristic) 1)
          (\<lambda>tissue. Inr (Some (str_lower (str_strip tissue))))
      else find_tissue rest)"

text \<open>The body of the \<^verbatim>\<open>try\<close>, with the function's final \<^verbatim>\<open>return None\<close>.\<close>

definition get_tissue_try ::
  "(string, sample_record) dict \<Rightarrow> string \<Rightarrow> error + string option" where
  "get_tissue_try sample_metadata sample =
     bind_err (dict_getitem sample_metadata sample) (\<lambda>sample_rec.
     bind_err (get_key (refinebio_annotations sample_rec)) (\<lambda>annotations.
     bind_err (list_getitem annotations 0) (\<lambda>first_annotation.
     bind_err (get_key (characteristics_ch1 first_annotation)) (\<lambda>ch1.
       find_tissue ch1))))"

text \<open>The two \<^verbatim>\<open>except\<close> clauses: KeyError and IndexError become \<^verbatim>\<open>None\<close>.\<close>

definition get_tissue ::
  "(string, sample_record) dict \<Rightarrow> string \<Rightarrow> error + string option" where
  "get_tissue sample_metadata sample =
     (case get_tissue_try sample_metadata sample of
        Inl e \<Rightarrow> (if e = KeyError \<or> e = IndexError then Inr None else Inl e)
      | Inr tissue \<Rightarrow> Inr tissue)"
subsection \<open>Cohort selection\<close>

definition BLOOD_KEYS :: "string list" where
  "BLOOD_KEYS =
     [''blood'',
      ''blood (buffy coat)'',
      ''blood cells'',
      ''blood monocytes'',
      ''blood sample'',
      ''cells from whole blood'',
      ''fresh venous blood anticoagulated with 50 g/ml thrombin-inhibitor lepirudin'',
      ''healthy human blood'',
      ''host peripheral blood'',
      ''leukemic peripheral blood'',
      ''monocytes isolated from pbmc'',
      ''normal peripheral blood cells'',
      ''pbmc'',
      ''pbmcs'',
      ''peripheral blood'',
      ''peripheral blood (pb)'',
      ''peripheral blood mononuclear cell'',
      ''peripheral blood mononuclear cell (pbmc)'',
      ''peripheral blood mononuclear cells'',
      ''peripheral blood mononuclear cells (pbmc)'',
      ''peripheral blood mononuclear cells (pbmcs)'',
      ''peripheral blood mononuclear cells (pbmcs) from healthy donors'',
      ''peripheral maternal blood'',
      ''peripheral whole blood'',
      ''periphral blood'',
      ''pheripheral blood'',
      ''whole blood'',
      ''whole blood (wb)'',
      ''whole blood, maternal peripheral'',
      ''whole venous blood'']"

text \<open>\<^verbatim>\<open>tissue in BLOOD_KEYS\<close>, where \<^verbatim>\<open>tissue\<close> may be \<^verbatim>\<open>None\<close>.\<close>

definition in_BLOOD_KEYS :: "string option \<Rightarrow> bool" where
  "in_BLOOD_KEYS tissue = (case tissue of None \<Rightarrow> False | Some t \<Rightarrow> t \<in> set BLOOD_KEYS)"

text \<open>
  The compendium metadata (\<^verbatim>\<open>aggregated_metadata.json\<close>), as far as
  \<^verbatim>\<open>get_blood_sample_ids\<close> reads it: the key \<^verbatim>\<open>samples\<close>, which may be absent.
\<close>

record compendium_metadata =
  samples :: "(string, sample_record) dict option"

text \<open>
  \<^verbatim>\<open>
  for sample in sample_metadata:
      tissue = get_tissue(sample_metadata, sample)
      if tissue in BLOOD_KEYS and sample not in labeled_samples:
          unlabeled_samples.add(sample)
  \<close>
\<close>

fun add_unlabeled_blood ::
  "(string, sample_record) dict \<Rightarrow> string set \<Rightarrow> string list \<Rightarrow> string set
   \<Rightarrow> error + string set" where
  "add_unlabeled_blood sample_metadata labeled_samples [] unlabeled_samples =
     Inr unlabeled_samples"
| "add_unlabeled_blood sample_metadata labeled_samples (sample # rest) unlabeled_samples =
     bind_err (get_tissue sample_metadata sample) (\<lambda>tissue.
       add_unlabeled_blood sample_metadata labeled_samples rest
         (if in_BLOOD_KEYS tissue \<and> sample \<notin> labeled_samples
          then insert sample unlabeled_samples else unlabeled_samples))"

definition get_blood_sample_ids ::
  "compendium_metadata \<Rightarrow> (string, string) dict \<Rightarrow> error + string set" where
  "get_blood_sample_ids metadata sample_to_label =
     bind_err (get_key (samples metadata)) (\<lambda>sample_metadata.
       let labeled_samples = set (map fst sample_to_label) in
       bind_err (add_unlabeled_blood sample_metadata labeled_samples
                   (map fst sample_metadata) {})
         (\<lambda>unlabeled_samples. Inr (labeled_samples \<union> unlabeled_samples)))"

subsection \<open>Deterministic shuffle\<close>

text \<open>
  \<^verbatim>\<open>shuffled_list = random.sample(sorted(list(set_)), len(set_))\<close>

  A Python set is given by the list of its elements in the order in which the interpreter
  happens to iterate over it: a list without repetitions, whose order may differ from run
  to run. \<^verbatim>\<open>sorted\<close> on totally ordered elements is \<open>sort\<close>. The standard library's
  \<^verbatim>\<open>random.sample\<close> and the process-wide random state it reads and advances are
  parameters: \<open>random_sample state population k\<close> returns the sample and the new state.
\<close>

definition deterministic_shuffle_set ::
  "('st \<Rightarrow> 'a list \<Rightarrow> nat \<Rightarrow> 'a list \<times> 'st) \<Rightarrow> 'st \<Rightarrow> ('a::linorder) list \<Rightarrow> 'a list \<times> 'st" where
  "deterministic_shuffle_set random_sample random_state set_elems =
     random_sample random_state (sort set_elems) (length set_elems)"

text \<open>
  An instance of the parameter: the selection loop of CPython's \<^verbatim>\<open>random.sample\<close> for a
  sample as large as the population, over any generator \<open>randbelow\<close> of numbers below a
  bound,
  \<^verbatim>\<open>
  pool = list(population)
  for i in range(k):
      j = randbelow(n - i)
      result[i] = pool[j]
      pool[j] = pool[n - i - 1]
  \<close>
  and a linear congruential generator as \<open>randbelow\<close>.
\<close>

fun pool_sample ::
  "('st \<Rightarrow> nat \<Rightarrow> nat \<times> 'st) \<Rightarrow> nat \<Rightarrow> 'st \<Rightarrow> 'a list \<Rightarrow> nat \<Rightarrow> 'a list \<times> 'st" where
  "pool_sample randbelow 0 st pool m = ([], st)"
| "pool_sample randbelow (Suc r) st pool m =
     (let (j, st') = randbelow st m;
          (rest, st'') = pool_sample randbelow r st' (pool[j := pool ! (m - 1)]) (m - 1)
      in (pool ! j # rest, st''))"

definition pool_random_sample ::
  "('st \<Rightarrow> nat \<Rightarrow> nat \<times> 'st) \<Rightarrow> 'st \<Rightarrow> 'a list \<Rightarrow> nat \<Rightarrow> 'a list \<times> 'st" where
  "pool_random_sample randbelow st population k =
     pool_sample randbelow k st population (length population)"

definition lcg_randbelow :: "nat \<Rightarrow> nat \<Rightarrow> nat \<times> nat" where
  "lcg_randbelow st n = ((st div 65536) mod n, (1103515245 * st + 12345) mod 2147483648)"

section \<open>Properties of the class-balance correction in exact arithmetic\<close>

lemma bind_err_simps [simp]:
  "bind_err (Inl e) f = Inl e" "bind_err (Inr x) f = f x"
  by (simp_all add: bind_err_def)

lemma ratio_less_iff:
  fixes a b c d :: int
  assumes "0 < a + b" "0 < c + d"
  shows "(of_int a / of_int (b + a) :: rat) < of_int c / of_int (c + d) \<longleftrightarrow> a * d < c * b"
proof -
  have p1: "(0::rat) < of_int (b + a)" and p2: "(0::rat) < of_int (c + d)"
    using assms by (simp_all add: add.commute)
  have "(of_int a / of_int (b + a) :: rat) < of_int c / of_int (c + d)
        \<longleftrightarrow> (of_int a :: rat) * of_int (c + d) < of_int c * of_int (b + a)"
    using p1 p2 by (simp add: divide_less_eq pos_less_divide_eq mult.commute)
  also have "\<dots> \<longleftrightarrow> (of_int (a * (c + d)) :: rat) < of_int (c * (b + a))"
    by simp
  also have "\<dots> \<longleftrightarrow> a * (c + d) < c * (b + a)"
    by (simp only: of_int_less_iff)
  also have "\<dots> \<longleftrightarrow> a * d < c * b"
    by (simp add: algebra_simps)
  finally show ?thesis .
qed


lemma pools_nonzero:
  fixes tp tn vp vn :: int
  assumes "0 < tp + tn" "0 < vp + vn"
  shows "(of_int (tn + tp) :: rat) \<noteq> 0" "(of_int (vp + vn) :: rat) \<noteq> 0"
  using assms by (simp_all add: add.commute)

lemma cross_product_positive:
  fixes tp tn vp vn :: int
  assumes nn: "0 \<le> tp" "0 \<le> tn" "0 \<le> vp" "0 \<le> vn"
    and lt: "vp * tn < tp * vn"
  shows "0 < tp" "0 < vn"
proof -
  have "0 \<le> vp * tn" using nn by simp
  then have pos: "0 < tp * vn" using lt by simp
  show "0 < tp" using pos nn by (cases "tp = 0") simp_all
  show "0 < vn" using pos nn by (cases "vn = 0") simp_all
qed

lemma one_minus_ratio:
  fixes vp vn :: int
  assumes "0 < vp + vn"
  shows "1 - (of_int vp / of_int (vp + vn) :: rat) = of_int vn / of_int (vp + vn)"
proof -
  have "(of_int (vp + vn) :: rat) \<noteq> 0" using assms by simp
  then show ?thesis by (simp add: field_simps)
qed

lemma gt_value:
  fixes a b s n p :: rat
  assumes "s \<noteq> 0" "b \<noteq> 0"
  shows "a / s * n / (b / s) / p = (a * n) / (b * p)"
proof -
  have "a / s * n / (b / s) = (a * n) / b"
    using assms by (simp add: divide_simps)
  then have "a / s * n / (b / s) / p = (a * n) / b / p"
    by (rule arg_cong)
  then show ?thesis by (simp only: divide_divide_eq_left)
qed

lemma lt_value:
  fixes a b s n p :: rat
  assumes s: "s = a + b" "s \<noteq> 0" and a: "a \<noteq> 0"
  shows "(p - a / s * p) / (a / s) / n = (p * b) / (a * n)"
proof -
  have "p - a / s * p = p * b / s"
    using s by (simp add: field_simps)
  then have "(p - a / s * p) / (a / s) = p * b / s / (a / s)"
    by (rule arg_cong)
  also have "\<dots> = p * b / a"
    using s a by (simp add: divide_simps)
  finally have "(p - a / s * p) / (a / s) / n = p * b / a / n"
    by (rule arg_cong)
  then show ?thesis by (simp only: divide_divide_eq_left)
qed

text \<open>The three paths through the function, in closed form over the integer counts.\<close>

lemma dsf_gt:
  fixes tp tn vp vn :: int
  assumes nn: "0 \<le> tp" "0 \<le> tn" "0 \<le> vp" "0 \<le> vn"
    and pools: "0 < tp + tn" "0 < vp + vn"
    and lt: "vp * tn < tp * vn"
  shows "determine_subset_fraction tp tn vp vn = Inr (of_int (vp * tn) / of_int (vn * tp))"
proof -
  have tp: "0 < tp" and vn: "0 < vn" using cross_product_positive [OF nn lt] by simp_all
  have nz: "(of_int (tn + tp) :: rat) \<noteq> 0" "(of_int (vp + vn) :: rat) \<noteq> 0"
    using pools_nonzero [OF pools] by simp_all
  have gt: "(of_int vp / of_int (vp + vn) :: rat) < of_int tp / of_int (tn + tp)"
    using ratio_less_iff [of vp vn tp tn] pools lt by (simp add: add.commute mult.commute)
  have om: "1 - (of_int vp / of_int (vp + vn) :: rat) = of_int vn / of_int (vp + vn)"
    by (rule one_minus_ratio [OF pools(2)])
  have omnz: "(of_int vn / of_int (vp + vn) :: rat) \<noteq> 0"
    using vn nz(2) by simp
  have tpnz: "(of_int tp :: rat) \<noteq> 0" using tp by simp
  have vnnz: "(of_int vn :: rat) \<noteq> 0" using vn by simp
  have val: "(of_int vp / of_int (vp + vn) * of_int tn / (of_int vn / of_int (vp + vn))
                / of_int tp :: rat) = of_int (vp * tn) / of_int (vn * tp)"
    using gt_value [OF nz(2) vnnz, of "of_int vp" "of_int tn" "of_int tp"] by simp
  show ?thesis
    unfolding determine_subset_fraction_def truediv_def
    using nz gt omnz tpnz val by (simp add: om del: of_int_add)
qed

lemma dsf_lt:
  fixes tp tn vp vn :: int
  assumes nn: "0 \<le> tp" "0 \<le> tn" "0 \<le> vp" "0 \<le> vn"
    and pools: "0 < tp + tn" "0 < vp + vn"
    and lt: "tp * vn < vp * tn"
  shows "determine_subset_fraction tp tn vp vn = Inr (of_int (tp * vn) / of_int (vp * tn))"
proof -
  have vp: "0 < vp" and tn: "0 < tn"
    using cross_product_positive [OF nn(3) nn(4) nn(1) nn(2) lt] by simp_all
  have nz: "(of_int (tn + tp) :: rat) \<noteq> 0" "(of_int (vp + vn) :: rat) \<noteq> 0"
    using pools_nonzero [OF pools] by simp_all
  have less: "(of_int tp / of_int (tn + tp) :: rat) < of_int vp / of_int (vp + vn)"
    using ratio_less_iff [of tp tn vp vn] pools lt by simp
  have vpnz: "(of_int vp :: rat) \<noteq> 0" using vp by simp
  have rnz: "(of_int vp / of_int (vp + vn) :: rat) \<noteq> 0"
    using vpnz nz(2) by simp
  have tnnz: "(of_int tn :: rat) \<noteq> 0" using tn by simp
  have val: "((of_int tp - of_int vp / of_int (vp + vn) * of_int tp)
                / (of_int vp / of_int (vp + vn)) / of_int tn :: rat)
             = of_int (tp * vn) / of_int (vp * tn)"
    using lt_value [of "of_int (vp + vn)" "of_int vp" "of_int vn" "of_int tp" "of_int tn"]
      nz(2) vpnz by simp
  show ?thesis
    unfolding determine_subset_fraction_def truediv_def
    using nz less rnz tnnz val by simp
qed











text \<open>
  Claim C3 says that equal class fractions give the fraction 1.0. The function has no
  branch for that case: with one positive and one negative sample in each pool neither
  comparison holds, \<^verbatim>\<open>subset_fraction\<close> is never assigned and the \<^verbatim>\<open>return\<close> raises
  UnboundLocalError. (Lemma \<open>dsf_eq\<close> shows the same for all equal fractions.)
\<close>

theorem equal_ratio_unbound: "determine_subset_fraction 1 1 1 1 = Inl UnboundLocalError"
  by (simp add: determine_subset_fraction_def truediv_def)

text \<open>
  Claim C2 says that an all-negative or all-positive validation pool is rejected with an
  error. The function has no such check: with an all-negative validation pool (0 positive,
  1 negative) and one training sample of each class it returns the fraction 0.
\<close>

theorem degenerate_validation_returns_value:
  "determine_subset_fraction 1 1 0 1 = Inr 0"
  by (simp add: determine_subset_fraction_def truediv_def)

text \<open>
  The degenerate validation pools in exact arithmetic, for counts of any size: for an
  all-negative validation pool and at least one positive training sample, and for an
  all-positive validation pool and at least one negative training sample, the function
  with its arithmetic carried out exactly raises nothing and yields the fraction 0.
\<close>

theorem degenerate_validation_zero:
  fixes tp tn vp vn :: int
  assumes nn: "0 \<le> tp" "0 \<le> tn"
  shows "(vp = 0 \<and> 0 < vn \<and> 0 < tp \<longrightarrow> determine_subset_fraction tp tn vp vn = Inr 0)
       \<and> (vn = 0 \<and> 0 < vp \<and> 0 < tn \<longrightarrow> determine_subset_fraction tp tn vp vn = Inr 0)"
proof (intro conjI impI)
  assume a: "vp = 0 \<and> 0 < vn \<and> 0 < tp"
  then have "vp * tn < tp * vn" by simp
  then show "determine_subset_fraction tp tn vp vn = Inr 0"
    using dsf_gt [of tp tn vp vn] nn a by simp
next
  assume a: "vn = 0 \<and> 0 < vp \<and> 0 < tn"
  then have "tp * vn < vp * tn" by simp
  then show "determine_subset_fraction tp tn vp vn = Inr 0"
    using dsf_lt [of tp tn vp vn] nn a by simp
qed

text \<open>
  Both degenerate validation pools with 3 positive and 2 negative training samples.
\<close>

theorem degenerate_validation_zero_witness:
  "determine_subset_fraction 3 2 0 5 = Inr 0 \<and> determine_subset_fraction 3 2 5 0 = Inr 0"
  using degenerate_validation_zero [of 3 2 0 5] degenerate_validation_zero [of 3 2 5 0]
  by simp

section \<open>Properties of the class-balance correction in floating point\<close>

text \<open>
  Evaluation of the rounding on numerals.
\<close>

lemma floor_rat_numeral_div [simp]:
  "\<lfloor>numeral a / numeral b :: rat\<rfloor> = numeral a div numeral b"
  using floor_divide_of_int_eq [of "numeral a" "numeral b", where ?'a = rat] by simp

lemmas f64_eval = round_f64_def round_pos_def binade_def exp_up.simps exp_down.simps pow2_def
  round_half_even_def Let_def float_of_int_def int_truediv_def float_truediv_def
  determine_subset_fraction_f64_def

text \<open>
  The function in floating point at the example of the specification, at the failing
  input of claim C3, at the input of the counterexample of claim C2, and at an input where
  the rounded result is exactly 1.
\<close>

lemma f64_spec_example:
  "determine_subset_fraction_f64 80 20 10 90
   = Inr (Finite (8006399337547549 / 288230376151711744))"
  by (simp add: f64_eval)

lemma f64_equal_ratio: "determine_subset_fraction_f64 1 1 1 1 = Inl UnboundLocalError"
  by (simp add: f64_eval)

lemma f64_degenerate_validation: "determine_subset_fraction_f64 1 1 0 1 = Inr (Finite 0)"
  by (simp add: f64_eval)

lemma f64_rounds_to_one:
  "determine_subset_fraction_f64 73892503 83849007 76264595 86540722 = Inr (Finite 1)"
  by (simp add: f64_eval)



text \<open>
  Rounding in general. Powers of two, rounding to an integer, and the exponent search:
  for a number in the range of the normal doubles, \<open>binade\<close> finds the exponent \<open>e\<close> with
  \<open>2^e \<le> x < 2^(e+1)\<close>.
\<close>

lemma pow2_powi: "pow2 e = 2 powi e"
  unfolding pow2_def power_int_def by (simp add: power_divide inverse_eq_divide)

lemma pow2_pos: "0 < pow2 e"
  by (simp add: pow2_powi)

lemma pow2_Suc: "pow2 (e + 1) = 2 * pow2 e"
  unfolding pow2_powi by (subst power_int_add) simp_all

lemma pow2_pred: "2 * pow2 (e - 1) = pow2 e"
  using pow2_Suc [of "e - 1"] by simp

lemma pow2_mono: "a \<le> b \<Longrightarrow> pow2 a \<le> pow2 b"
  unfolding pow2_powi by (rule power_int_increasing) simp_all

lemma pow2_add: "pow2 (a + b) = pow2 a * pow2 b"
  unfolding pow2_powi by (rule power_int_add) simp

lemma pow2_0: "pow2 0 = 1"
  by (simp add: pow2_def)

lemma pow2_nat: "pow2 (int n) = 2 ^ n"
  by (simp add: pow2_def)

lemma round_half_even_bounds: "\<lfloor>q\<rfloor> \<le> round_half_even q" "round_half_even q \<le> \<lfloor>q\<rfloor> + 1"
  by (simp_all add: round_half_even_def Let_def)

lemma round_half_even_of_int: "round_half_even (of_int k) = k"
  by (simp add: round_half_even_def Let_def)

lemma round_half_even_le: "q \<le> of_int N \<Longrightarrow> round_half_even q \<le> N"
proof (cases "q = of_int N")
  case True then show ?thesis by (simp add: round_half_even_of_int)
next
  case False
  assume "q \<le> of_int N"
  with False have "q < of_int N" by simp
  then have "\<lfloor>q\<rfloor> < N" by (simp add: floor_less_iff)
  then show ?thesis using round_half_even_bounds(2) [of q] by linarith
qed

lemma round_half_even_ge:
  assumes "of_int N \<le> q"
  shows "N \<le> round_half_even q"
proof -
  have "N \<le> \<lfloor>q\<rfloor>" using assms by (simp add: le_floor_iff)
  then show ?thesis using round_half_even_bounds(1) [of q] by linarith
qed

lemma exp_up_bounds:
  "1 \<le> x \<Longrightarrow> x * pow2 e < pow2 1024 \<Longrightarrow>
   e \<le> exp_up x e \<and> pow2 (exp_up x e - e) \<le> x \<and> x < 2 * pow2 (exp_up x e - e)"
proof (induction x e rule: exp_up.induct)
  case (1 x e)
  show ?case
  proof (cases "2 \<le> x \<and> e < 1023")
    case True
    then have eq: "exp_up x e = exp_up (x / 2) (e + 1)" by (subst exp_up.simps) simp
    have "1 \<le> x / 2" using True by simp
    moreover have "x / 2 * pow2 (e + 1) < pow2 1024" using "1.prems" by (simp add: pow2_Suc)
    ultimately have ih: "e + 1 \<le> exp_up (x / 2) (e + 1)
        \<and> pow2 (exp_up (x / 2) (e + 1) - (e + 1)) \<le> x / 2
        \<and> x / 2 < 2 * pow2 (exp_up (x / 2) (e + 1) - (e + 1))"
      using "1.IH" True by blast
    have p: "2 * pow2 (exp_up (x / 2) (e + 1) - (e + 1)) = pow2 (exp_up (x / 2) (e + 1) - e)"
      using pow2_pred [of "exp_up (x / 2) (e + 1) - e"] by (simp add: algebra_simps)
    show ?thesis unfolding eq using ih p by linarith
  next
    case False
    then have eq: "exp_up x e = e" by (subst exp_up.simps) auto
    have "x < 2"
    proof (rule ccontr)
      assume "\<not> x < 2"
      then have x: "2 \<le> x" and e: "1023 \<le> e" using False by auto
      have "pow2 1024 = 2 * pow2 1023" using pow2_Suc [of 1023] by simp
      also have "\<dots> \<le> x * pow2 e"
        using x pow2_mono [OF e] pow2_pos [of 1023] by (intro mult_mono) auto
      finally show False using "1.prems" by simp
    qed
    then show ?thesis unfolding eq using "1.prems" by (simp add: pow2_0)
  qed
qed

lemma exp_down_bounds:
  "0 < x \<Longrightarrow> x < 2 \<Longrightarrow> pow2 (- 1022) \<le> x * pow2 e \<Longrightarrow>
   exp_down x e \<le> e \<and> pow2 (exp_down x e - e) \<le> x \<and> x < 2 * pow2 (exp_down x e - e)"
proof (induction x e rule: exp_down.induct)
  case (1 x e)
  show ?case
  proof (cases "x < 1 \<and> - 1022 < e")
    case True
    then have eq: "exp_down x e = exp_down (2 * x) (e - 1)" by (subst exp_down.simps) simp
    have "0 < 2 * x" "2 * x < 2" using True "1.prems" by simp_all
    moreover have "pow2 (- 1022) \<le> 2 * x * pow2 (e - 1)"
      using "1.prems" pow2_pred [of e] by (simp add: algebra_simps)
    ultimately have ih: "exp_down (2 * x) (e - 1) \<le> e - 1
        \<and> pow2 (exp_down (2 * x) (e - 1) - (e - 1)) \<le> 2 * x
        \<and> 2 * x < 2 * pow2 (exp_down (2 * x) (e - 1) - (e - 1))"
      using "1.IH" True by blast
    have p: "pow2 (exp_down (2 * x) (e - 1) - (e - 1)) = 2 * pow2 (exp_down (2 * x) (e - 1) - e)"
      using pow2_Suc [of "exp_down (2 * x) (e - 1) - e"] by (simp add: algebra_simps)
    show ?thesis unfolding eq using ih p by linarith
  next
    case False
    then have eq: "exp_down x e = e" by (subst exp_down.simps) auto
    have "1 \<le> x"
    proof (rule ccontr)
      assume "\<not> 1 \<le> x"
      then have x: "x < 1" and e: "e \<le> - 1022" using False by auto
      have "x * pow2 e < 1 * pow2 e" using x pow2_pos [of e] by (intro mult_strict_right_mono)
      also have "\<dots> \<le> pow2 (- 1022)" using pow2_mono [OF e] by simp
      finally show False using "1.prems" by simp
    qed
    then show ?thesis unfolding eq using "1.prems" by (simp add: pow2_0)
  qed
qed

lemma round_f64_0: "round_f64 0 = Finite 0"
  by (simp add: round_f64_def)

lemma pow2_1024_big: "2 ^ 53 < pow2 1024"
  by (simp add: pow2_def)

text \<open>
  A positive integer below \<open>2^53\<close> is a double: rounding leaves it unchanged.
\<close>

lemma round_f64_int:
  assumes n: "0 < n" "n < 2 ^ 53"
  shows "round_f64 (of_int n) = Finite (of_int n)"
proof -
  define x :: rat where "x = of_int n"
  have x1: "1 \<le> x" using n by (simp add: x_def)
  have xb: "x < 2 ^ 53"
  proof -
    have "(of_int n :: rat) < of_int (2 ^ 53)" using n(2) by (simp only: of_int_less_iff)
    then show ?thesis by (simp add: x_def)
  qed
  have big: "x < pow2 1024" using xb pow2_1024_big by simp
  define e where "e = exp_up x 0"
  have eb: "0 \<le> e" "pow2 e \<le> x" "x < 2 * pow2 e"
    using exp_up_bounds [of x 0] x1 big by (simp_all add: e_def pow2_0)
  have bin: "binade x = e" using x1 by (simp add: binade_def e_def)
  have e52: "e \<le> 52"
  proof (rule ccontr)
    assume "\<not> e \<le> 52"
    then have "53 \<le> e" by simp
    then have "pow2 53 \<le> pow2 e" by (rule pow2_mono)
    moreover have "pow2 53 = 2 ^ 53" by (simp add: pow2_def)
    ultimately show False using eb(2) xb by simp
  qed
  define k where "k = nat (52 - e)"
  have up: "pow2 (52 - e) = 2 ^ k"
    using e52 pow2_nat [of k] by (simp add: k_def)
  have inv: "pow2 (e - 52) * pow2 (52 - e) = 1"
    using pow2_add [of "e - 52" "52 - e"] by (simp add: pow2_0)
  have upos: "0 < pow2 (e - 52)" by (rule pow2_pos)
  have q: "x / pow2 (e - 52) = of_int (n * 2 ^ k)"
  proof -
    have "x / pow2 (e - 52) = x * pow2 (52 - e)"
      using inv upos by (simp add: field_simps)
    then show ?thesis by (simp add: up x_def)
  qed
  have r: "of_int (round_half_even (x / pow2 (e - 52))) * pow2 (e - 52) = x"
  proof -
    have "of_int (round_half_even (x / pow2 (e - 52))) * pow2 (e - 52)
          = x / pow2 (e - 52) * pow2 (e - 52)"
      unfolding q round_half_even_of_int ..
    then show ?thesis using upos by simp
  qed
  have "round_pos x = Finite x"
    using big by (simp add: round_pos_def Let_def bin r)
  then show ?thesis using x1 by (simp add: round_f64_def x_def [symmetric])
qed

lemma round_f64_1: "round_f64 1 = Finite 1"
  using round_f64_int [of 1] by simp

text \<open>
  A proper fraction with a denominator below \<open>2^53\<close> rounds to a double strictly
  between 0 and 1: it is at most \<open>1 - 2^-53\<close>, which is itself a double.
\<close>

lemma round_f64_proper_fraction:
  fixes a b :: int
  assumes ab: "0 < a" "a < b" "b < 2 ^ 53"
  shows "\<exists>r. round_f64 (of_int a / of_int b) = Finite r \<and> 0 < r \<and> r < 1"
proof -
  define x :: rat where "x = of_int a / of_int b"
  have bpos: "(0::rat) < of_int b" using ab by simp
  have x0: "0 < x" using ab bpos by (simp add: x_def)
  have x1: "x < 1" using ab bpos by (simp add: x_def)
  have bb: "(of_int b :: rat) \<le> 2 ^ 53"
  proof -
    have "b \<le> 2 ^ 53" using ab(3) by simp
    then have "(of_int b :: rat) \<le> of_int (2 ^ 53)" by (simp only: of_int_le_iff)
    then show ?thesis by simp
  qed
  have xlow: "1 / 2 ^ 53 \<le> x"
  proof -
    have "(1::rat) \<le> of_int a" using ab(1) by simp
    then have "1 / of_int b \<le> x" using bpos by (simp add: x_def divide_right_mono)
    moreover have "(1::rat) / 2 ^ 53 \<le> 1 / of_int b"
      using bb bpos by (simp add: frac_le)
    ultimately show ?thesis by simp
  qed
  have tiny: "pow2 (- 1022) \<le> 1 / 2 ^ 53"
  proof -
    have "pow2 (- 1022) \<le> pow2 (- 53)" by (rule pow2_mono) simp
    moreover have "pow2 (- 53) = 1 / 2 ^ 53" by (simp add: pow2_def)
    ultimately show ?thesis by simp
  qed
  define e where "e = exp_down x 0"
  have eb: "e \<le> 0" "pow2 e \<le> x" "x < 2 * pow2 e"
    using exp_down_bounds [of x 0] x0 x1 xlow tiny by (simp_all add: e_def pow2_0)
  have bin: "binade x = e" using x1 by (simp add: binade_def e_def)
  have em1: "e \<le> - 1"
  proof (rule ccontr)
    assume "\<not> e \<le> - 1"
    then have "e = 0" using eb(1) by simp
    then show False using eb(2) x1 by (simp add: pow2_0)
  qed
  define u where "u = pow2 (e - 52)"
  have upos: "0 < u" unfolding u_def by (rule pow2_pos)
  have u52: "u * 2 ^ 52 = pow2 e"
    using pow2_add [of "e - 52" 52] pow2_nat [of 52] by (simp add: u_def)
  define q where "q = x / u"
  have qlow: "of_int (2 ^ 52) \<le> q"
  proof -
    have "u * 2 ^ 52 \<le> x" using eb(2) u52 by simp
    then have "2 ^ 52 \<le> x / u" using upos by (simp add: field_simps)
    then show ?thesis by (simp add: q_def)
  qed
  define m where "m = round_half_even q"
  have mlow: "2 ^ 52 \<le> m" unfolding m_def using qlow by (rule round_half_even_ge)
  have rpos: "0 < of_int m * u"
  proof -
    have "(0::int) < m" using mlow by (simp add: less_le_trans [of 0 "2 ^ 52"])
    then show ?thesis using upos by simp
  qed
  have rlt: "of_int m * u < 1"
  proof (cases "e = - 1")
    case True
    have u53: "u = 1 / 2 ^ 53" by (simp add: u_def True pow2_def)
    have "of_int a * 2 ^ 53 \<le> of_int b * (2 ^ 53 - 1 :: rat)"
    proof -
      have "a + 1 \<le> b" using ab by simp
      then have "(of_int (a + 1) :: rat) \<le> of_int b" by (simp only: of_int_le_iff)
      then have "(of_int a + 1 :: rat) * 2 ^ 53 \<le> of_int b * 2 ^ 53" by simp
      then have "(of_int a :: rat) * 2 ^ 53 \<le> of_int b * 2 ^ 53 - 2 ^ 53"
        by (simp add: algebra_simps)
      also have "\<dots> \<le> of_int b * 2 ^ 53 - of_int b" using bb by simp
      finally show ?thesis by (simp add: algebra_simps)
    qed
    then have "x * 2 ^ 53 \<le> 2 ^ 53 - 1"
      using bpos by (simp add: x_def field_simps)
    then have "q \<le> of_int (2 ^ 53 - 1)" by (simp add: q_def u53)
    then have "m \<le> 2 ^ 53 - 1" unfolding m_def by (rule round_half_even_le)
    then have "(of_int m :: rat) \<le> of_int (2 ^ 53 - 1)" by (simp only: of_int_le_iff)
    then have "(of_int m :: rat) \<le> 2 ^ 53 - 1" by simp
    then show ?thesis by (simp add: u53)
  next
    case False
    then have e2: "e + 1 \<le> - 1" using em1 by simp
    have "x < u * 2 ^ 53"
    proof -
      have "u * 2 ^ 53 = 2 * pow2 e" using u52 by simp
      then show ?thesis using eb(3) by simp
    qed
    then have "q \<le> of_int (2 ^ 53)" using upos by (simp add: q_def field_simps)
    then have "m \<le> 2 ^ 53" unfolding m_def by (rule round_half_even_le)
    then have "(of_int m :: rat) \<le> of_int (2 ^ 53)" by (simp only: of_int_le_iff)
    then have "(of_int m :: rat) \<le> 2 ^ 53" by simp
    then have "of_int m * u \<le> 2 ^ 53 * u" using upos by simp
    also have "\<dots> = pow2 (e + 1)" using u52 pow2_Suc [of e] by simp
    also have "\<dots> \<le> pow2 (- 1)" using e2 by (rule pow2_mono)
    also have "\<dots> < 1" by (simp add: pow2_def)
    finally show ?thesis .
  qed
  have nbig: "\<not> pow2 1024 \<le> of_int m * u"
  proof -
    have "(1::rat) \<le> pow2 1024" using pow2_mono [of 0 1024] by (simp add: pow2_0)
    then show ?thesis using rlt by simp
  qed
  have "round_pos x = Finite (of_int m * u)"
    using nbig by (simp add: round_pos_def Let_def bin u_def [symmetric] q_def [symmetric]
        m_def [symmetric])
  then have "round_f64 x = Finite (of_int m * u)" using x0 by (simp add: round_f64_def)
  then show ?thesis using rpos rlt unfolding x_def by blast
qed

lemma round_f64_small_int:
  assumes "0 \<le> n" "n < 2 ^ 53"
  shows "round_f64 (of_int n) = Finite (of_int n)"
proof (cases "n = 0")
  case True then show ?thesis by (simp add: round_f64_0)
next
  case False
  then have "0 < n" using assms by simp
  then show ?thesis using assms(2) by (rule round_f64_int)
qed

lemma float_of_int_small:
  assumes "0 \<le> n" "n < 2 ^ 53"
  shows "float_of_int n = Inr (Finite (of_int n))"
  using round_f64_small_int [OF assms] by (simp add: float_of_int_def)

lemma int_truediv_zero: "0 < b \<Longrightarrow> int_truediv 0 b = Inr (Finite 0)"
  by (simp add: int_truediv_def round_f64_0)

lemma int_truediv_self: "0 < b \<Longrightarrow> int_truediv b b = Inr (Finite 1)"
  by (simp add: int_truediv_def round_f64_1)

lemma int_truediv_proper:
  assumes "0 < a" "a < b" "b < 2 ^ 53"
  shows "\<exists>r. int_truediv a b = Inr (Finite r) \<and> 0 < r \<and> r < 1"
proof -
  obtain r where "round_f64 (of_int a / of_int b) = Finite r" "0 < r" "r < 1"
    using round_f64_proper_fraction [OF assms] by blast
  moreover have "b \<noteq> 0" using assms by simp
  ultimately show ?thesis by (simp add: int_truediv_def)
qed

lemma float_truediv_zero: "y \<noteq> 0 \<Longrightarrow> float_truediv (Finite 0) (Finite y) = Inr (Finite 0)"
  by (simp add: float_truediv_def round_f64_0)

text \<open>
  The two degenerate validation pools in floating point, for training counts whose sum is
  below \<open>2^53\<close>.
\<close>

lemma all_negative_validation_f64:
  assumes tp: "0 < tp" and tn: "0 \<le> tn" and bound: "tp + tn < 2 ^ 53" and vn: "0 < vn"
  shows "determine_subset_fraction_f64 tp tn 0 vn = Inr (Finite 0)"
proof -
  have val: "int_truediv 0 (0 + vn) = Inr (Finite 0)" using vn by (simp add: int_truediv_zero)
  obtain r where train: "int_truediv tp (tn + tp) = Inr (Finite r)" and r: "0 < r"
  proof (cases "tn = 0")
    case True
    then have "int_truediv tp (tn + tp) = Inr (Finite 1)" using tp by (simp add: int_truediv_self)
    then show ?thesis using that [of 1] by simp
  next
    case False
    then have "tp < tn + tp" using tn by simp
    moreover have "tn + tp < 2 ^ 53" using bound by (simp add: add.commute)
    ultimately show ?thesis using int_truediv_proper [OF tp] that by blast
  qed
  have tnf: "float_of_int tn = Inr (Finite (of_int tn))"
    using tn tp bound by (intro float_of_int_small) simp_all
  have tpf: "float_of_int tp = Inr (Finite (of_int tp))"
    using tn tp bound by (intro float_of_int_small) simp_all
  have tpnz: "(of_int tp :: rat) \<noteq> 0" using tp by simp
  show ?thesis
    unfolding determine_subset_fraction_f64_def val train
    using r tpnz by (simp add: tnf tpf round_f64_0 round_f64_1 float_truediv_zero)
qed

lemma all_positive_validation_f64:
  assumes tp: "0 \<le> tp" and tn: "0 < tn" and bound: "tp + tn < 2 ^ 53" and vp: "0 < vp"
  shows "determine_subset_fraction_f64 tp tn vp 0 = Inr (Finite 0)"
proof -
  have val: "int_truediv vp (vp + 0) = Inr (Finite 1)" using vp by (simp add: int_truediv_self)
  obtain r where train: "int_truediv tp (tn + tp) = Inr (Finite r)" and r: "r < 1"
  proof (cases "tp = 0")
    case True
    then have "int_truediv tp (tn + tp) = Inr (Finite 0)" using tn by (simp add: int_truediv_zero)
    then show ?thesis using that [of 0] by simp
  next
    case False
    then have "0 < tp" using tp by simp
    moreover have "tp < tn + tp" using tn by simp
    moreover have "tn + tp < 2 ^ 53" using bound by (simp add: add.commute)
    ultimately show ?thesis using int_truediv_proper that by blast
  qed
  have tnf: "float_of_int tn = Inr (Finite (of_int tn))"
    using tn tp bound by (intro float_of_int_small) simp_all
  have tpf: "float_of_int tp = Inr (Finite (of_int tp))"
    using tn tp bound by (intro float_of_int_small) simp_all
  have prod: "round_f64 (of_int tp) = Finite (of_int tp)"
    using tn tp bound by (intro round_f64_small_int) simp_all
  have tnnz: "(of_int tn :: rat) \<noteq> 0" using tn by simp
  show ?thesis
    unfolding determine_subset_fraction_f64_def val train
    using r tnnz by (simp add: tnf tpf prod round_f64_0 float_truediv_zero)
qed

text \<open>
  Claim C2, as the code behaves. For non-negative training counts with a sum below
  \<open>2^53\<close>: for an all-negative validation pool and at least one positive training sample,
  and for an all-positive validation pool and at least one negative training sample, the
  function, computed in floating point as the interpreter does, raises nothing and returns
  the fraction 0.
\<close>

theorem degenerate_validation_zero_f64:
  fixes tp tn vp vn :: int
  assumes nn: "0 \<le> tp" "0 \<le> tn" and bound: "tp + tn < 2 ^ 53"
  shows "(vp = 0 \<and> 0 < vn \<and> 0 < tp \<longrightarrow>
            determine_subset_fraction_f64 tp tn vp vn = Inr (Finite 0))
       \<and> (vn = 0 \<and> 0 < vp \<and> 0 < tn \<longrightarrow>
            determine_subset_fraction_f64 tp tn vp vn = Inr (Finite 0))"
  using all_negative_validation_f64 [of tp tn vn] all_positive_validation_f64 [of tp tn vp]
    nn bound by blast

text \<open>
  Both degenerate validation pools with 3 positive and 2 negative training samples, in
  floating point.
\<close>

theorem degenerate_validation_zero_f64_witness:
  "determine_subset_fraction_f64 3 2 0 5 = Inr (Finite 0)
   \<and> determine_subset_fraction_f64 3 2 5 0 = Inr (Finite 0)"
  using degenerate_validation_zero_f64 [of 3 2 0 5] degenerate_validation_zero_f64 [of 3 2 5 0]
  by simp

section \<open>Properties of the study filter\<close>

lemma get_samples_in_studies_ok:
  "\<forall>s \<in> set xs. map_of m s \<noteq> None \<Longrightarrow>
   get_samples_in_studies xs studies m =
     Inr (filter (\<lambda>s. case map_of m s of None \<Rightarrow> False | Some st \<Rightarrow> st \<in> studies) xs)"
  by (induction xs) (auto simp: dict_getitem_def split: option.splits)

lemma get_samples_in_studies_err:
  "\<exists>s \<in> set xs. map_of m s = None \<Longrightarrow> get_samples_in_studies xs studies m = Inl KeyError"
proof (induction xs)
  case Nil then show ?case by simp
next
  case (Cons x xs)
  show ?case
  proof (cases "map_of m x")
    case None then show ?thesis by (simp add: dict_getitem_def)
  next
    case (Some st)
    then have "\<exists>s \<in> set xs. map_of m s = None" using Cons.prems by auto
    then show ?thesis using Cons.IH Some by (simp add: dict_getitem_def)
  qed
qed

text \<open>
  Claim C9. If every sample of the list has a study, the result is the list filtered, in
  order, to the samples whose study is in the given set; if some sample of the list has no
  study, the call fails with KeyError.
\<close>

theorem get_samples_in_studies_filter:
  "((\<forall>s \<in> set sample_list. map_of sample_to_study s \<noteq> None) \<longrightarrow>
      get_samples_in_studies sample_list studies sample_to_study =
        Inr (filter (\<lambda>s. case map_of sample_to_study s of None \<Rightarrow> False
                           | Some st \<Rightarrow> st \<in> studies) sample_list))
   \<and> ((\<exists>s \<in> set sample_list. map_of sample_to_study s = None) \<longrightarrow>
      get_samples_in_studies sample_list studies sample_to_study = Inl KeyError)"
  using get_samples_in_studies_ok [of sample_list sample_to_study studies]
        get_samples_in_studies_err [of sample_list sample_to_study studies]
  by blast

text \<open>
  Three samples of two studies filtered to study \<open>S1\<close>, and the same list when the second
  sample has no study.
\<close>

theorem get_samples_in_studies_filter_witness:
  "get_samples_in_studies [''a'', ''b'', ''c''] {''S1''}
      [(''a'', ''S1''), (''b'', ''S2''), (''c'', ''S1'')] = Inr [''a'', ''c'']
   \<and> get_samples_in_studies [''a'', ''b'', ''c''] {''S1''}
      [(''a'', ''S1''), (''c'', ''S1'')] = Inl KeyError"
  using get_samples_in_studies_filter [of "[''a'', ''b'', ''c'']"
          "[(''a'', ''S1''), (''b'', ''S2''), (''c'', ''S1'')]" "{''S1''}"]
        get_samples_in_studies_filter [of "[''a'', ''b'', ''c'']"
          "[(''a'', ''S1''), (''c'', ''S1'')]" "{''S1''}"]
  by simp

section \<open>Properties of the label map loaders\<close>

lemma update_fresh: "k \<notin> fst ` set d \<Longrightarrow> AList.update k v d = d @ [(k, v)]"
  by (induction d) auto

lemma assign_label_checked_eq:
  "assign_label_checked label ss d =
     (if distinct ss \<and> set ss \<inter> fst ` set d = {} then Inr (d @ map (\<lambda>s. (s, label)) ss)
      else Inl AssertionError)"
proof (induction ss arbitrary: d)
  case Nil then show ?case by simp
next
  case (Cons s ss)
  show ?case
  proof (cases "s \<in> fst ` set d")
    case True
    then show ?thesis by (auto simp: dict_contains_def map_of_eq_None_iff)
  next
    case False
    then have "assign_label_checked label (s # ss) d
               = assign_label_checked label ss (d @ [(s, label)])"
      by (simp add: dict_contains_def dict_setitem_def map_of_eq_None_iff update_fresh)
    then show ?thesis using False by (auto simp: Cons.IH)
  qed
qed

lemma parse_label_loop_eq:
  "parse_label_loop m d =
     (if distinct (concat (map snd m)) \<and> set (concat (map snd m)) \<inter> fst ` set d = {}
      then Inr (d @ invert_labels m) else Inl AssertionError)"
proof (induction m arbitrary: d)
  case Nil then show ?case by (simp add: invert_labels_def)
next
  case (Cons p m)
  obtain label ss where p: "p = (label, ss)" by (cases p)
  show ?case
    unfolding p
    by (auto simp: assign_label_checked_eq Cons.IH invert_labels_def image_Un image_image)
qed

text \<open>
  The asserting loader: it succeeds exactly when no sample id is listed twice, and then
  returns the inverted mapping; otherwise the assertion fails.
\<close>

lemma parse_label_file_eq:
  "parse_label_file m =
     (if distinct (concat (map snd m)) then Inr (invert_labels m) else Inl AssertionError)"
  by (simp add: parse_label_file_def parse_label_loop_eq)

lemma invert_labels_keys: "map fst (invert_labels m) = concat (map snd m)"
  by (induction m) (auto simp: invert_labels_def comp_def)

lemma invert_labels_set:
  "(s, l) \<in> set (invert_labels m) \<longleftrightarrow> (\<exists>ss. (l, ss) \<in> set m \<and> s \<in> set ss)"
  by (auto simp: invert_labels_def)

text \<open>
  When no sample id is listed twice, the inverted mapping holds every sample of every
  label exactly once (its keys are the listed samples, without repetition) and maps it to
  its label.
\<close>

lemma invert_labels_lookup:
  assumes "distinct (concat (map snd m))"
  shows "map_of (invert_labels m) s = Some l \<longleftrightarrow> (\<exists>ss. (l, ss) \<in> set m \<and> s \<in> set ss)"
proof -
  have "distinct (map fst (invert_labels m))"
    using assms by (simp add: invert_labels_keys)
  then have "map_of (invert_labels m) s = Some l \<longleftrightarrow> (s, l) \<in> set (invert_labels m)"
    by simp
  then show ?thesis by (simp add: invert_labels_set)
qed

lemma assign_label_fresh:
  "distinct ss \<Longrightarrow> set ss \<inter> fst ` set d = {} \<Longrightarrow>
   assign_label label ss d = d @ map (\<lambda>s. (s, label)) ss"
proof (induction ss arbitrary: d)
  case Nil then show ?case by simp
next
  case (Cons s ss)
  then have "s \<notin> fst ` set d" by auto
  then have "dict_setitem d s label = d @ [(s, label)]"
    by (simp add: dict_setitem_def update_fresh)
  moreover have "set ss \<inter> fst ` set (d @ [(s, label)]) = {}" "distinct ss"
    using Cons.prems by auto
  ultimately show ?case using Cons.IH [of "d @ [(s, label)]"] by simp
qed

lemma parse_map_loop_fresh:
  "distinct (concat (map snd m)) \<Longrightarrow> set (concat (map snd m)) \<inter> fst ` set d = {} \<Longrightarrow>
   parse_map_loop m d = d @ invert_labels m"
proof (induction m arbitrary: d)
  case Nil then show ?case by (simp add: invert_labels_def)
next
  case (Cons p m)
  obtain label ss where p: "p = (label, ss)" by (cases p)
  have a: "assign_label label ss d = d @ map (\<lambda>s. (s, label)) ss"
    using Cons.prems by (intro assign_label_fresh) (auto simp: p)
  have "parse_map_loop m (d @ map (\<lambda>s. (s, label)) ss)
        = (d @ map (\<lambda>s. (s, label)) ss) @ invert_labels m"
    using Cons.prems by (intro Cons.IH) (auto simp: p image_Un image_image)
  then show ?case by (simp add: p a invert_labels_def)
qed

text \<open>The loader without the assertion agrees with the asserting one on such inputs.\<close>

lemma parse_map_file_distinct:
  "distinct (concat (map snd m)) \<Longrightarrow> parse_map_file m = invert_labels m"
  by (simp add: parse_map_file_def parse_map_loop_fresh)

text \<open>
  Claim C6 says that loading inverts a label map without duplicates, and fails when a
  sample id occurs under a second label. \<open>parse_label_file\<close> does both
  (\<open>parse_label_file_eq\<close>, \<open>invert_labels_lookup\<close>). \<open>parse_map_file\<close> has the same
  loop without the assertion: for a sample listed under \<open>sepsis\<close> and again under
  \<open>healthy\<close> it returns a mapping in which the second label has replaced the first,
  where \<open>parse_label_file\<close> fails.
\<close>

theorem parse_map_file_overwrites:
  "parse_map_file [(''sepsis'', [''GSM297791'']), (''healthy'', [''GSM297791''])]
     = [(''GSM297791'', ''healthy'')]
   \<and> parse_label_file [(''sepsis'', [''GSM297791'']), (''healthy'', [''GSM297791''])]
     = Inl AssertionError"
  by (simp add: parse_map_file_def parse_label_file_def dict_setitem_def dict_contains_def)

section \<open>Properties of tissue extraction and cohort selection\<close>

text \<open>
  The substring test is the contiguous-sublist relation of the library.
\<close>

lemma str_contains_sublist: "str_contains sub s = sublist sub s"
  by (induction s) (auto simp: sublist_Cons_right)

lemma length_str_split: "length (str_split sep s) = Suc (length (filter (\<lambda>c. c = sep) s))"
  by (induction s) (auto simp: Let_def)

lemma str_split_nonempty: "str_split sep s \<noteq> []"
  using length_str_split [of sep s] by auto

lemma hd_str_split: "hd (str_split sep s) = takeWhile (\<lambda>c. c \<noteq> sep) s"
  by (induction s) (auto simp: Let_def)

text \<open>
  Splitting gives one field more than there are separators; when the separator occurs,
  the second field is the text between its first and its second occurrence.
\<close>

lemma str_split_second:
  "sep \<in> set s \<Longrightarrow>
   str_split sep s ! 1 = takeWhile (\<lambda>c. c \<noteq> sep) (tl (dropWhile (\<lambda>c. c \<noteq> sep) s))"
proof (induction s)
  case Nil then show ?case by simp
next
  case (Cons c cs)
  show ?case
  proof (cases "c = sep")
    case True
    then show ?thesis
      using hd_str_split [of sep cs] str_split_nonempty [of sep cs]
      by (simp add: hd_conv_nth)
  next
    case False
    then have mem: "sep \<in> set cs" using Cons.prems by auto
    then have "filter (\<lambda>c. c = sep) cs \<noteq> []" by (auto simp: filter_empty_conv)
    then have "1 < length (str_split sep cs)"
      by (simp add: length_str_split)
    then have "tl (str_split sep cs) ! 0 = str_split sep cs ! 1"
      by (simp add: nth_tl)
    then show ?thesis using False Cons.IH [OF mem] by (simp add: Let_def)
  qed
qed

lemma marker_has_colon: "sublist ''tissue:'' c \<Longrightarrow> CHR '':'' \<in> set c"
  by (auto simp: sublist_def)

lemma split_has_second:
  assumes "CHR '':'' \<in> set c"
  shows "1 < length (str_split CHR '':'' c)"
proof -
  have "filter (\<lambda>x. x = CHR '':'') c \<noteq> []" using assms by (auto simp: filter_empty_conv)
  then show ?thesis by (simp add: length_str_split)
qed

lemma find_tissue_none:
  "\<forall>c \<in> set ch1. \<not> sublist ''tissue:'' c \<Longrightarrow> find_tissue ch1 = Inr None"
  by (induction ch1) (simp_all add: str_contains_sublist del: str_contains.simps)

lemma find_tissue_first:
  assumes "\<forall>x \<in> set pre. \<not> sublist ''tissue:'' x" and "sublist ''tissue:'' c"
  shows "find_tissue (pre @ c # post)
         = Inr (Some (str_lower (str_strip (str_split CHR '':'' c ! 1))))"
  using assms(1)
proof (induction pre)
  case Nil
  have "1 < length (str_split CHR '':'' c)"
    using split_has_second [OF marker_has_colon [OF assms(2)]] .
  then show ?case using assms(2)
    by (simp add: str_contains_sublist list_getitem_def del: str_contains.simps)
next
  case (Cons x pre)
  then show ?case by (simp add: str_contains_sublist del: str_contains.simps)
qed

lemma find_tissue_total: "\<exists>t. find_tissue ch1 = Inr t"
proof (induction ch1)
  case Nil then show ?case by simp
next
  case (Cons c cs)
  show ?case
  proof (cases "sublist ''tissue:'' c")
    case True
    then show ?thesis using find_tissue_first [of "[]" c cs] by simp
  next
    case False
    then show ?thesis using Cons.IH by (simp add: str_contains_sublist del: str_contains.simps)
  qed
qed

lemma find_tissue_no_error: "find_tissue ch1 \<noteq> Inl e"
  using find_tissue_total [of ch1] by auto

lemma get_tissue_try_errors:
  "get_tissue_try sm s = Inl e \<Longrightarrow> e = KeyError \<or> e = IndexError"
  by (auto simp: get_tissue_try_def bind_err_def dict_getitem_def get_key_def list_getitem_def
      find_tissue_no_error split: sum.splits option.splits if_splits)

text \<open>
  On metadata of this shape the \<^verbatim>\<open>try\<close> body raises only KeyError and IndexError, so
  \<open>get_tissue\<close> always returns.
\<close>

lemma get_tissue_total: "\<exists>t. get_tissue sm s = Inr t"
proof (cases "get_tissue_try sm s")
  case (Inl e)
  then show ?thesis using get_tissue_try_errors [OF Inl] by (auto simp: get_tissue_def)
next
  case (Inr t)
  then show ?thesis by (simp add: get_tissue_def)
qed

text \<open>
  Claim C7. For a sample with a record in the metadata, tissue extraction returns
  \<^verbatim>\<open>None\<close> when the record has no annotations field, when its annotation list is empty,
  and when no characteristic of the first annotation contains \<open>tissue:\<close>; when \<open>c\<close> is
  the first characteristic that contains \<open>tissue:\<close>, splitting \<open>c\<close> at the colons gives
  at least two fields and the result is the second one, stripped and lower-cased.
\<close>

theorem get_tissue_cases:
  assumes "map_of sample_metadata sample = Some sample_rec"
  shows "(refinebio_annotations sample_rec = None \<longrightarrow>
            get_tissue sample_metadata sample = Inr None)
       \<and> (refinebio_annotations sample_rec = Some [] \<longrightarrow>
            get_tissue sample_metadata sample = Inr None)
       \<and> (refinebio_annotations sample_rec = Some (a # rest)
              \<and> characteristics_ch1 a = Some ch1
              \<and> (\<forall>c \<in> set ch1. \<not> sublist ''tissue:'' c) \<longrightarrow>
            get_tissue sample_metadata sample = Inr None)
       \<and> (refinebio_annotations sample_rec = Some (a # rest)
              \<and> characteristics_ch1 a = Some (pre @ c # post)
              \<and> (\<forall>x \<in> set pre. \<not> sublist ''tissue:'' x) \<and> sublist ''tissue:'' c \<longrightarrow>
            1 < length (str_split CHR '':'' c)
            \<and> get_tissue sample_metadata sample
                = Inr (Some (str_lower (str_strip (str_split CHR '':'' c ! 1)))))"
proof (intro conjI impI)
  assume "refinebio_annotations sample_rec = None"
  then show "get_tissue sample_metadata sample = Inr None"
    using assms by (simp add: get_tissue_def get_tissue_try_def dict_getitem_def get_key_def)
next
  assume "refinebio_annotations sample_rec = Some []"
  then show "get_tissue sample_metadata sample = Inr None"
    using assms
    by (simp add: get_tissue_def get_tissue_try_def dict_getitem_def get_key_def
        list_getitem_def)
next
  assume h: "refinebio_annotations sample_rec = Some (a # rest)
              \<and> characteristics_ch1 a = Some ch1
              \<and> (\<forall>c \<in> set ch1. \<not> sublist ''tissue:'' c)"
  then have "find_tissue ch1 = Inr None" using find_tissue_none by blast
  then show "get_tissue sample_metadata sample = Inr None"
    using assms h
    by (simp add: get_tissue_def get_tissue_try_def dict_getitem_def get_key_def
        list_getitem_def)
next
  assume h: "refinebio_annotations sample_rec = Some (a # rest)
              \<and> characteristics_ch1 a = Some (pre @ c # post)
              \<and> (\<forall>x \<in> set pre. \<not> sublist ''tissue:'' x) \<and> sublist ''tissue:'' c"
  show "1 < length (str_split CHR '':'' c)"
    using h split_has_second [OF marker_has_colon] by blast
  have "find_tissue (pre @ c # post)
        = Inr (Some (str_lower (str_strip (str_split CHR '':'' c ! 1))))"
    using h find_tissue_first by blast
  then show "get_tissue sample_metadata sample
             = Inr (Some (str_lower (str_strip (str_split CHR '':'' c ! 1))))"
    using assms h
    by (simp add: get_tissue_def get_tissue_try_def dict_getitem_def get_key_def
        list_getitem_def)
qed

text \<open>
  The four cases on one-sample metadata, the last one with the specification's example
  \<open>tissue: Whole Blood\<close>, which gives \<open>whole blood\<close>.
\<close>

theorem get_tissue_cases_witness:
  "get_tissue [(''GSM1'', \<lparr>refinebio_annotations = None\<rparr>)] ''GSM1'' = Inr None
   \<and> get_tissue [(''GSM1'', \<lparr>refinebio_annotations = Some []\<rparr>)] ''GSM1'' = Inr None
   \<and> get_tissue [(''GSM1'', \<lparr>refinebio_annotations =
         Some [\<lparr>characteristics_ch1 = Some [''age: 12'']\<rparr>]\<rparr>)] ''GSM1'' = Inr None
   \<and> get_tissue [(''GSM1'', \<lparr>refinebio_annotations =
         Some [\<lparr>characteristics_ch1 = Some [''age: 12'', ''tissue: Whole Blood '']\<rparr>]\<rparr>)]
       ''GSM1'' = Inr (Some ''whole blood'')"
proof -
  have no: "\<not> sublist ''tissue:'' ''age: 12''"
    by (simp add: str_contains_sublist [symmetric])
  have yes: "sublist ''tissue:'' ''tissue: Whole Blood ''"
    by (simp add: str_contains_sublist [symmetric])
  have val: "str_lower (str_strip (str_split CHR '':'' ''tissue: Whole Blood '' ! 1))
             = ''whole blood''"
    by (simp add: str_lower_def str_strip_def is_space_def lower_char_def)
  show ?thesis
    using no yes val
      get_tissue_cases [of "[(''GSM1'', \<lparr>refinebio_annotations = None\<rparr>)]" "''GSM1''"
        "\<lparr>refinebio_annotations = None\<rparr>"]
      get_tissue_cases [of "[(''GSM1'', \<lparr>refinebio_annotations = Some []\<rparr>)]" "''GSM1''"
        "\<lparr>refinebio_annotations = Some []\<rparr>"]
      get_tissue_cases [of "[(''GSM1'', \<lparr>refinebio_annotations =
          Some [\<lparr>characteristics_ch1 = Some [''age: 12'']\<rparr>]\<rparr>)]" "''GSM1''"
        "\<lparr>refinebio_annotations = Some [\<lparr>characteristics_ch1 = Some [''age: 12'']\<rparr>]\<rparr>"
        "\<lparr>characteristics_ch1 = Some [''age: 12'']\<rparr>" "[]" "[''age: 12'']"]
      get_tissue_cases [of "[(''GSM1'', \<lparr>refinebio_annotations =
          Some [\<lparr>characteristics_ch1 = Some [''age: 12'', ''tissue: Whole Blood '']\<rparr>]\<rparr>)]"
        "''GSM1''"
        "\<lparr>refinebio_annotations =
          Some [\<lparr>characteristics_ch1 = Some [''age: 12'', ''tissue: Whole Blood '']\<rparr>]\<rparr>"
        "\<lparr>characteristics_ch1 = Some [''age: 12'', ''tissue: Whole Blood '']\<rparr>" "[]"
        _ "[''age: 12'']" "''tissue: Whole Blood ''" "[]"]
    by simp
qed

lemma add_unlabeled_blood_eq:
  "add_unlabeled_blood sm labeled keys acc =
     Inr (acc \<union> {s \<in> set keys. (\<exists>t. get_tissue sm s = Inr (Some t) \<and> t \<in> set BLOOD_KEYS)
                               \<and> s \<notin> labeled})"
proof (induction keys arbitrary: acc)
  case Nil then show ?case by simp
next
  case (Cons k keys)
  obtain t where t: "get_tissue sm k = Inr t" using get_tissue_total by blast
  show ?case
    by (cases t) (auto simp: t Cons.IH in_BLOOD_KEYS_def)
qed

text \<open>
  Claim C8. When the metadata has the key \<^verbatim>\<open>samples\<close>, cohort selection returns the
  union of the keys of the sample-to-label mapping and of the samples of
  \<^verbatim>\<open>metadata['samples']\<close> whose extracted tissue is in \<open>BLOOD_KEYS\<close> and which are not
  among those keys.
\<close>

theorem get_blood_sample_ids_union:
  assumes "samples metadata = Some sample_metadata"
  shows "get_blood_sample_ids metadata sample_to_label =
           Inr (fst ` set sample_to_label
                \<union> {s \<in> fst ` set sample_metadata.
                     (\<exists>t. get_tissue sample_metadata s = Inr (Some t) \<and> t \<in> set BLOOD_KEYS)
                     \<and> s \<notin> fst ` set sample_to_label})"
  using assms
  by (simp add: get_blood_sample_ids_def get_key_def add_unlabeled_blood_eq)

text \<open>
  Three labelled samples that are not blood (one of them without annotations, one with an
  empty annotation list), two unlabelled blood samples and one unlabelled lung sample: the
  cohort has the five expected samples.
\<close>

theorem get_blood_sample_ids_union_witness:
  "get_blood_sample_ids
     \<lparr>samples = Some
       [(''L1'', \<lparr>refinebio_annotations =
                  Some [\<lparr>characteristics_ch1 = Some [''tissue: liver'']\<rparr>]\<rparr>),
        (''L2'', \<lparr>refinebio_annotations = Some []\<rparr>),
        (''L3'', \<lparr>refinebio_annotations = None\<rparr>),
        (''U1'', \<lparr>refinebio_annotations =
                  Some [\<lparr>characteristics_ch1 = Some [''tissue: Whole Blood '']\<rparr>]\<rparr>),
        (''U2'', \<lparr>refinebio_annotations =
                  Some [\<lparr>characteristics_ch1 = Some [''age: 12'', ''tissue: PBMC'']\<rparr>]\<rparr>),
        (''U3'', \<lparr>refinebio_annotations =
                  Some [\<lparr>characteristics_ch1 = Some [''tissue: lung'']\<rparr>]\<rparr>)]\<rparr>
     [(''L1'', ''sepsis''), (''L2'', ''sepsis''), (''L3'', ''healthy'')]
   = Inr {''L1'', ''L2'', ''L3'', ''U1'', ''U2''}"
proof -
  let ?sm = "[(''L1'', \<lparr>refinebio_annotations =
                  Some [\<lparr>characteristics_ch1 = Some [''tissue: liver'']\<rparr>]\<rparr>),
        (''L2'', \<lparr>refinebio_annotations = Some []\<rparr>),
        (''L3'', \<lparr>refinebio_annotations = None\<rparr>),
        (''U1'', \<lparr>refinebio_annotations =
                  Some [\<lparr>characteristics_ch1 = Some [''tissue: Whole Blood '']\<rparr>]\<rparr>),
        (''U2'', \<lparr>refinebio_annotations =
                  Some [\<lparr>characteristics_ch1 = Some [''age: 12'', ''tissue: PBMC'']\<rparr>]\<rparr>),
        (''U3'', \<lparr>refinebio_annotations =
                  Some [\<lparr>characteristics_ch1 = Some [''tissue: lung'']\<rparr>]\<rparr>)]"
  let ?labels = "[(''L1'', ''sepsis''), (''L2'', ''sepsis''), (''L3'', ''healthy'')]"
  have run: "get_blood_sample_ids \<lparr>samples = Some ?sm\<rparr> ?labels
             = Inr {''L1'', ''L2'', ''L3'', ''U1'', ''U2''}"
    by (simp add: get_blood_sample_ids_def get_key_def get_tissue_def
        get_tissue_try_def dict_getitem_def list_getitem_def in_BLOOD_KEYS_def BLOOD_KEYS_def
        str_lower_def str_strip_def is_space_def lower_char_def insert_commute)
  have "samples \<lparr>samples = Some ?sm\<rparr> = Some ?sm" by simp
  from get_blood_sample_ids_union [OF this, of ?labels]
  have union: "get_blood_sample_ids \<lparr>samples = Some ?sm\<rparr> ?labels
        = Inr (fst ` set ?labels
          \<union> {s \<in> fst ` set ?sm.
               (\<exists>t. get_tissue ?sm s = Inr (Some t) \<and> t \<in> set BLOOD_KEYS)
               \<and> s \<notin> fst ` set ?labels})" .
  then have "fst ` set ?labels
          \<union> {s \<in> fst ` set ?sm.
               (\<exists>t. get_tissue ?sm s = Inr (Some t) \<and> t \<in> set BLOOD_KEYS)
               \<and> s \<notin> fst ` set ?labels} = {''L1'', ''L2'', ''L3'', ''U1'', ''U2''}"
    unfolding run by (simp only: sum.inject)
  with union show ?thesis by (simp only:)
qed

section \<open>Properties of the deterministic shuffle\<close>

text \<open>
  Two iteration orders of the same set sort to the same list and have the same length.
\<close>

lemma sort_canonical:
  fixes xs ys :: "'a::linorder list"
  assumes "distinct xs" "distinct ys" "set xs = set ys"
  shows "sort xs = sort ys"
  using assms by (intro sorted_distinct_set_unique) simp_all

lemma length_canonical:
  assumes "distinct xs" "distinct ys" "set xs = set ys"
  shows "length xs = length ys"
  using assms by (metis distinct_card)

text \<open>
  One step of the selection loop: the element picked at \<open>j\<close> is replaced by the last
  element of the live part of the pool, which shrinks by one.
\<close>

lemma swap_remove_mset:
  assumes "j < Suc m" "Suc m \<le> length pool"
  shows "add_mset (pool ! j) (mset (take m (pool[j := pool ! m]))) = mset (take (Suc m) pool)"
proof (cases "j = m")
  case True
  then show ?thesis using assms by (simp add: take_Suc_conv_app_nth)
next
  case False
  then have j: "j < m" using assms by simp
  have len: "j < length (take m pool)" using j assms by simp
  have "take m (pool[j := pool ! m]) = (take m pool)[j := pool ! m]"
    by (simp add: take_update_swap)
  then have "mset (take m (pool[j := pool ! m]))
             = add_mset (pool ! m) (mset (take m pool) - {#take m pool ! j#})"
    using len by (simp add: mset_update)
  moreover have "take m pool ! j = pool ! j" using j by simp
  moreover have "pool ! j \<in># mset (take m pool)"
    using len j by (metis nth_mem nth_take set_mset_mset)
  ultimately show ?thesis using assms by (simp add: take_Suc_conv_app_nth)
qed

lemma pool_sample_mset:
  assumes rb: "\<forall>st n. 0 < n \<longrightarrow> fst (randbelow st n) < n"
  shows "m \<le> length pool \<Longrightarrow>
         mset (fst (pool_sample randbelow m st pool m)) = mset (take m pool)"
proof (induction m arbitrary: st pool)
  case 0 then show ?case by simp
next
  case (Suc m)
  obtain j st' where r: "randbelow st (Suc m) = (j, st')" by (cases "randbelow st (Suc m)")
  have j: "j < Suc m" using rb r by (metis fst_conv zero_less_Suc)
  have "m \<le> length (pool[j := pool ! m])" using Suc.prems by simp
  from Suc.IH [OF this, of st']
  have "mset (fst (pool_sample randbelow m st' (pool[j := pool ! m]) m))
        = mset (take m (pool[j := pool ! m]))" .
  then show ?case
    using swap_remove_mset [OF j Suc.prems] r by (simp add: split_beta)
qed

text \<open>
  The selection loop returns a permutation of the population when the whole population
  is sampled and the generator stays below its bound.
\<close>

lemma pool_random_sample_contract:
  assumes "\<forall>st n. 0 < n \<longrightarrow> fst (randbelow st n) < n"
  shows "mset (fst (pool_random_sample randbelow st population (length population)))
         = mset population"
  using pool_sample_mset [OF assms, of "length population" population st]
  by (simp add: pool_random_sample_def)

lemma lcg_randbelow_range: "\<forall>st n. 0 < n \<longrightarrow> fst (lcg_randbelow st n) < n"
  by (simp add: lcg_randbelow_def)

text \<open>
  Claim C10. Let \<open>random_sample\<close> return a permutation of the population when asked for
  as many elements as the population has. For two iteration orders \<open>xs\<close> and \<open>ys\<close> of
  the same set and the same random state, \<open>deterministic_shuffle_set\<close> returns the same
  list (and leaves the same state), and the list is a permutation of the set: equal as a
  multiset, of length the size of the set.
\<close>

theorem deterministic_shuffle_set_permutation:
  fixes xs ys :: "'a::linorder list"
  assumes contract: "\<forall>st population.
      mset (fst (random_sample st population (length population))) = mset population"
    and sets: "distinct xs" "distinct ys" "set xs = set ys"
  shows "deterministic_shuffle_set random_sample seed xs
           = deterministic_shuffle_set random_sample seed ys
       \<and> mset (fst (deterministic_shuffle_set random_sample seed xs)) = mset xs
       \<and> length (fst (deterministic_shuffle_set random_sample seed xs)) = card (set xs)"
proof (intro conjI)
  show "deterministic_shuffle_set random_sample seed xs
        = deterministic_shuffle_set random_sample seed ys"
    unfolding deterministic_shuffle_set_def
    using sort_canonical [OF sets] length_canonical [OF sets] by simp
  have "mset (fst (random_sample seed (sort xs) (length (sort xs)))) = mset (sort xs)"
    using contract by blast
  then show perm: "mset (fst (deterministic_shuffle_set random_sample seed xs)) = mset xs"
    by (simp add: deterministic_shuffle_set_def)
  have "length (fst (deterministic_shuffle_set random_sample seed xs)) = length xs"
    using perm by (metis size_mset)
  then show "length (fst (deterministic_shuffle_set random_sample seed xs)) = card (set xs)"
    using sets(1) by (simp add: distinct_card)
qed

text \<open>
  The set of the integers 1 to 5 in two iteration orders, shuffled by the selection loop
  over the linear congruential generator from one seed.
\<close>

theorem deterministic_shuffle_set_permutation_witness:
  "deterministic_shuffle_set (pool_random_sample lcg_randbelow) 123456789 [3, 1, 2, 5, 4 :: int]
     = deterministic_shuffle_set (pool_random_sample lcg_randbelow) 123456789 [5, 4, 3, 2, 1]
   \<and> mset (fst (deterministic_shuffle_set (pool_random_sample lcg_randbelow) 123456789
                  [3, 1, 2, 5, 4 :: int])) = mset [3, 1, 2, 5, 4]
   \<and> length (fst (deterministic_shuffle_set (pool_random_sample lcg_randbelow) 123456789
                  [3, 1, 2, 5, 4 :: int])) = card (set [3, 1, 2, 5, 4 :: int])"
proof (rule deterministic_shuffle_set_permutation)
  show "\<forall>st population. mset (fst (pool_random_sample lcg_randbelow st population
          (length population))) = mset (population :: int list)"
    using pool_random_sample_contract [OF lcg_randbelow_range] by blast
  show "distinct [3, 1, 2, 5, 4 :: int]" by simp
  show "distinct [5, 4, 3, 2, 1 :: int]" by simp
  show "set [3, 1, 2, 5, 4 :: int] = set [5, 4, 3, 2, 1]" by (simp add: insert_commute)
qed

end
